theory Spec2Isabelle
  imports Main "HOL-Library.Sublist" "HOL-Library.AList"
begin

section \<open>The multi-project path resolver (\<open>codebase_rag/project_path_resolver.py\<close>)\<close>

text \<open>
  The class \<open>ProjectPathResolver\<close> owns one field, \<open>_mappings: dict[str, Path]\<close>.
  A Python dict keeps its keys in insertion order, and that order is visible here
  (the stable sort of \<open>extract_project_name\<close>, the joined key list of the error
  message, \<open>list_projects\<close>), so the dict is an association list in insertion order.
  Python strings are modelled as \<open>string\<close>; \<open>len\<close> is \<open>length\<close>.

  \<open>Path(p).resolve()\<close> asks the file system and \<open>Path.name\<close> is a library accessor;
  \<open>settings.TARGET_REPO_PATH\<close> lives in a configuration module. All three are
  parameters of the model: \<open>resolve\<close>, \<open>path_name\<close> and \<open>target_repo_path\<close>. The type
  \<open>'p\<close> stands for \<open>pathlib.Path\<close>. The resolution can raise (\<open>ValueError\<close> on an embedded
  NUL character, \<open>RuntimeError\<close> on a loop of symbolic links, an \<open>OSError\<close> when the working
  directory is gone), so \<open>resolve\<close> returns an error or a path, and the exception goes
  through every method that calls it.
\<close>

type_synonym 'p mappings = "(string \<times> 'p) list"

text \<open>
  The exception of the module. The message is
  \<open>ls.RESOLVER_PROJECT_NOT_FOUND.format(project=..., available=...)\<close>; the template is a
  constant of the logging module, so the error carries the two format arguments.
  \<open>IndexError\<close> is what \<open>xs[0]\<close> raises on an empty list; \<open>ValueError\<close>,
  \<open>RuntimeError\<close> and \<open>OSError\<close> are what the resolution of a path raises.
\<close>

datatype error =
    KeyError (project: string) (available: string)
  | IndexError
  | ValueError
  | RuntimeError
  | OSError

subsection \<open>Python built-ins used by the class\<close>

text \<open>\<open>d.keys()\<close>, \<open>k in d\<close>, \<open>d[k] = v\<close> (an existing key keeps its place, a new one goes
  last), \<open>del d[k]\<close> and \<open>d[k]\<close>.\<close>

definition keys :: "'p mappings \<Rightarrow> string list" where
  "keys m = map fst m"

definition contains :: "'p mappings \<Rightarrow> string \<Rightarrow> bool" where
  "contains m k = (k \<in> set (keys m))"

definition setitem :: "'p mappings \<Rightarrow> string \<Rightarrow> 'p \<Rightarrow> 'p mappings" where
  "setitem m k v = AList.update k v m"

definition delitem :: "'p mappings \<Rightarrow> string \<Rightarrow> 'p mappings" where
  "delitem m k = AList.delete k m"

definition getitem :: "'p mappings \<Rightarrow> string \<Rightarrow> 'p option" where
  "getitem m k = map_of m k"

text \<open>\<open>sep.join(xs)\<close>.\<close>

fun str_join :: "string \<Rightarrow> string list \<Rightarrow> string" where
  "str_join sep [] = []"
| "str_join sep [x] = x"
| "str_join sep (x # y # ys) = x @ sep @ str_join sep (y # ys)"

text \<open>\<open>s.startswith(p)\<close>.\<close>

definition startswith :: "string \<Rightarrow> string \<Rightarrow> bool" where
  "startswith s p = prefix p s"

text \<open>\<open>s.split(c)\<close> for a separator of one character: every occurrence splits, empty
  pieces are kept, and the result has one more piece than there are separators.\<close>

fun str_split :: "char \<Rightarrow> string \<Rightarrow> string list" where
  "str_split sep [] = [[]]"
| "str_split sep (c # cs) =
     (if c = sep then [] # str_split sep cs
      else (case str_split sep cs of
              [] \<Rightarrow> [[c]]
            | w # ws \<Rightarrow> (c # w) # ws))"

text \<open>\<open>xs[0]\<close>, which raises on the empty list.\<close>

definition index0 :: "'a list \<Rightarrow> error + 'a" where
  "index0 xs = (case xs of [] \<Rightarrow> Inl IndexError | x # _ \<Rightarrow> Inr x)"

text \<open>\<open>sorted(xs, key=len, reverse=True)\<close>. Python's sort is stable and stays stable
  under \<open>reverse=True\<close>: the list is reversed, sorted and reversed again, so that
  elements of equal length keep their original order.\<close>

definition sorted_len_reverse :: "string list \<Rightarrow> string list" where
  "sorted_len_reverse xs = rev (sort_key length (rev xs))"

subsection \<open>The methods of \<open>ProjectPathResolver\<close>\<close>

text \<open>\<open>__init__(mappings)\<close>. The argument is \<open>None\<close> or a dict (its items in insertion
  order). The test \<open>if mappings:\<close> is a truth test: \<open>None\<close> and the empty dict both
  take the \<open>else\<close> branch. \<open>init_items\<close> is the loop over the items; an exception of the
  resolution leaves the loop and the constructor, and no object is built.\<close>

fun init_items ::
  "(string \<Rightarrow> error + 'p) \<Rightarrow> (string \<times> string) list \<Rightarrow> 'p mappings \<Rightarrow> error + 'p mappings"
where
  "init_items resolve [] m = Inr m"
| "init_items resolve ((name, path) # rest) m =
     (case resolve path of
        Inl e \<Rightarrow> Inl e
      | Inr p \<Rightarrow> init_items resolve rest (setitem m name p))"

definition init ::
  "(string \<Rightarrow> error + 'p) \<Rightarrow> ('p \<Rightarrow> string) \<Rightarrow> string \<Rightarrow> (string \<times> string) list option
     \<Rightarrow> error + 'p mappings"
where
  "init resolve path_name target_repo_path mappings =
     (case mappings of
        Some (kv # kvs) \<Rightarrow> init_items resolve (kv # kvs) []
      | _ \<Rightarrow>
          (case resolve target_repo_path of
             Inl e \<Rightarrow> Inl e
           | Inr default_path \<Rightarrow>
               (let default_project = path_name default_path
                in Inr (setitem [] default_project default_path))))"

text \<open>The loop of \<open>extract_project_name\<close>: the first project name, in the given order,
  such that the qualified name starts with the name followed by a dot. The method then
  returns that name, or, when the loop ends without a match, \<open>qualified_name.split(".")[0]\<close>.
  The calls to the logger do not touch the result and are left out.\<close>

fun first_match :: "string list \<Rightarrow> string \<Rightarrow> string option" where
  "first_match [] qualified_name = None"
| "first_match (project_name # rest) qualified_name =
     (if startswith qualified_name (project_name @ ''.'') then Some project_name
      else first_match rest qualified_name)"

definition extract_project_name :: "'p mappings \<Rightarrow> string \<Rightarrow> error + string" where
  "extract_project_name m qualified_name =
     (let sorted_projects = sorted_len_reverse (keys m)
      in case first_match sorted_projects qualified_name of
           Some project_name \<Rightarrow> Inr project_name
         | None \<Rightarrow> index0 (str_split CHR ''.'' qualified_name))"

text \<open>\<open>get_project_path\<close>: the membership test, the \<open>raise\<close>, then \<open>self._mappings[name]\<close>.
  The subscript is reached only for a key that is in the dict, where it cannot fail; the
  branch for a missing key is there to keep the function total and is never taken
  (\<open>contains_getitem\<close> below).\<close>

definition get_project_path :: "'p mappings \<Rightarrow> string \<Rightarrow> error + 'p" where
  "get_project_path m project_name =
     (if \<not> contains m project_name
      then Inl (KeyError project_name (str_join '', '' (keys m)))
      else (case getitem m project_name of
              Some p \<Rightarrow> Inr p
            | None \<Rightarrow> Inl (KeyError project_name [])))"

definition resolve_path_from_fqn :: "'p mappings \<Rightarrow> string \<Rightarrow> error + 'p" where
  "resolve_path_from_fqn m qualified_name =
     (case extract_project_name m qualified_name of
        Inl e \<Rightarrow> Inl e
      | Inr project_name \<Rightarrow> get_project_path m project_name)"

definition list_projects :: "'p mappings \<Rightarrow> string list" where
  "list_projects m = keys m"

text \<open>\<open>add_project\<close> returns the outcome together with the registry after the call. The
  right-hand side of the assignment is evaluated first: when the resolution raises,
  nothing is stored.\<close>

definition add_project ::
  "(string \<Rightarrow> error + 'p) \<Rightarrow> 'p mappings \<Rightarrow> string \<Rightarrow> string \<Rightarrow> (error + unit) \<times> 'p mappings"
where
  "add_project resolve m name path =
     (case resolve path of
        Inl e \<Rightarrow> (Inl e, m)
      | Inr p \<Rightarrow> (Inr (), setitem m name p))"

text \<open>\<open>remove_project\<close> returns the outcome together with the registry after the call:
  the \<open>raise\<close> comes before the \<open>del\<close>, so a failed call leaves the field as it was.\<close>

definition remove_project :: "'p mappings \<Rightarrow> string \<Rightarrow> (error + unit) \<times> 'p mappings" where
  "remove_project m name =
     (if \<not> contains m name
      then (Inl (KeyError name (str_join '', '' (keys m))), m)
      else (Inr (), delitem m name))"

text \<open>\<open>from_config(config)\<close>: the mappings the configuration object yields go to the
  constructor as they are.\<close>

definition from_config ::
  "(string \<Rightarrow> error + 'p) \<Rightarrow> ('p \<Rightarrow> string) \<Rightarrow> string \<Rightarrow> (string \<times> string) list
     \<Rightarrow> error + 'p mappings"
where
  "from_config resolve path_name target_repo_path project_mappings =
     init resolve path_name target_repo_path (Some project_mappings)"

section \<open>Facts about the built-ins and the matching loop\<close>

lemma contains_getitem: "contains m k \<Longrightarrow> \<exists>p. getitem m k = Some p"
  unfolding contains_def keys_def getitem_def
  by (cases "map_of m k") (auto simp: map_of_eq_None_iff)

lemma keys_setitem_new: "\<not> contains m k \<Longrightarrow> keys (setitem m k v) = keys m @ [k]"
  by (induction m) (auto simp: contains_def keys_def setitem_def)

lemma keys_setitem_old: "contains m k \<Longrightarrow> keys (setitem m k v) = keys m"
  by (induction m) (auto simp: contains_def keys_def setitem_def)

lemma getitem_setitem: "getitem (setitem m k v) k' = (if k' = k then Some v else getitem m k')"
  by (simp add: getitem_def setitem_def update_conv')

lemma contains_setitem: "contains (setitem m k v) k' \<longleftrightarrow> k' = k \<or> contains m k'"
  by (induction m) (auto simp: contains_def keys_def setitem_def)

lemma set_sorted_len_reverse: "set (sorted_len_reverse xs) = set xs"
  by (simp add: sorted_len_reverse_def)

lemma sorted_len_reverse_desc: "sorted (rev (map length (sorted_len_reverse xs)))"
  by (simp add: sorted_len_reverse_def rev_map)

lemma first_match_None: "first_match xs q = None \<longleftrightarrow> (\<forall>k\<in>set xs. \<not> startswith q (k @ ''.''))"
  by (induction xs) auto

lemma first_match_Some:
  "first_match xs q = Some p \<Longrightarrow>
     \<exists>ys zs. xs = ys @ p # zs \<and> startswith q (p @ ''.'') \<and> (\<forall>y\<in>set ys. \<not> startswith q (y @ ''.''))"
proof (induction xs)
  case Nil
  then show ?case by simp
next
  case (Cons x xs)
  show ?case
  proof (cases "startswith q (x @ ''.'')")
    case True
    with Cons.prems have "x = p" by simp
    with True have "x # xs = [] @ p # xs \<and> startswith q (p @ ''.'') \<and> (\<forall>y\<in>set []. \<not> startswith q (y @ ''.''))"
      by simp
    then show ?thesis by blast
  next
    case False
    with Cons.prems have "first_match xs q = Some p" by simp
    from Cons.IH[OF this] obtain ys zs where
      h: "xs = ys @ p # zs" "startswith q (p @ ''.'')" "\<forall>y\<in>set ys. \<not> startswith q (y @ ''.'')"
      by blast
    with False have "x # xs = (x # ys) @ p # zs \<and> startswith q (p @ ''.'') \<and> (\<forall>y\<in>set (x # ys). \<not> startswith q (y @ ''.''))"
      by simp
    then show ?thesis by blast
  qed
qed

lemma desc_split_le:
  assumes "sorted (rev (map length (ys @ p # zs)))" "k \<in> set zs"
  shows "length k \<le> length (p::string)"
  using assms by (simp add: sorted_append rev_map)

lemma first_match_longest:
  assumes "first_match (sorted_len_reverse ks) q = Some p"
  shows "p \<in> set ks" "startswith q (p @ ''.'')"
    "\<And>k. k \<in> set ks \<Longrightarrow> startswith q (k @ ''.'') \<Longrightarrow> length k \<le> length p"
proof -
  from first_match_Some[OF assms] obtain ys zs where
    h: "sorted_len_reverse ks = ys @ p # zs" "startswith q (p @ ''.'')"
       "\<forall>y\<in>set ys. \<not> startswith q (y @ ''.'')"
    by blast
  have "p \<in> set (sorted_len_reverse ks)" using h(1) by simp
  then show "p \<in> set ks" by (simp add: set_sorted_len_reverse)
  show "startswith q (p @ ''.'')" by (rule h(2))
  fix k assume k: "k \<in> set ks" "startswith q (k @ ''.'')"
  from k(1) have "k \<in> set (sorted_len_reverse ks)" by (simp add: set_sorted_len_reverse)
  then have "k \<in> set (ys @ p # zs)" by (simp only: h(1))
  with k(2) h(3) have "k = p \<or> k \<in> set zs" by auto
  moreover have "sorted (rev (map length (ys @ p # zs)))"
    using sorted_len_reverse_desc[of ks] by (simp only: h(1))
  ultimately show "length k \<le> length p" using desc_split_le by blast
qed

lemma startswith_same_length:
  assumes "startswith q (a @ s)" "startswith q (b @ s)" "length a = length b"
  shows "a = b"
proof -
  from assms(1) obtain r where "q = a @ s @ r" by (auto simp: startswith_def prefix_def)
  moreover from assms(2) obtain r' where "q = b @ s @ r'" by (auto simp: startswith_def prefix_def)
  ultimately have "a @ s @ r = b @ s @ r'" by simp
  with assms(3) show ?thesis by simp
qed

lemma str_split_nonempty: "str_split sep s \<noteq> []"
  by (induction s) (auto split: list.splits)

lemma hd_str_split: "hd (str_split sep s) = takeWhile (\<lambda>c. c \<noteq> sep) s"
  by (induction s) (auto split: list.splits simp: str_split_nonempty)

lemma index0_str_split: "index0 (str_split sep s) = Inr (takeWhile (\<lambda>c. c \<noteq> sep) s)"
  using hd_str_split[of sep s] str_split_nonempty[of sep s]
  by (cases "str_split sep s") (auto simp: index0_def)

lemma extract_cases:
  "(\<exists>p. first_match (sorted_len_reverse (keys m)) q = Some p \<and> extract_project_name m q = Inr p)
   \<or> (first_match (sorted_len_reverse (keys m)) q = None
        \<and> extract_project_name m q = Inr (takeWhile (\<lambda>c. c \<noteq> CHR ''.'') q))"
  by (cases "first_match (sorted_len_reverse (keys m)) q")
     (simp_all add: extract_project_name_def index0_str_split)

lemma extract_no_match:
  assumes "\<forall>k\<in>set (keys m). \<not> startswith q (k @ ''.'')"
  shows "extract_project_name m q = Inr (takeWhile (\<lambda>c. c \<noteq> CHR ''.'') q)"
proof -
  have "first_match (sorted_len_reverse (keys m)) q = None"
    using assms by (simp add: first_match_None set_sorted_len_reverse)
  then show ?thesis by (simp add: extract_project_name_def index0_str_split)
qed

lemma extract_match:
  assumes "k \<in> set (keys m)" "startswith q (k @ ''.'')"
  shows "\<exists>p. extract_project_name m q = Inr p \<and> p \<in> set (keys m) \<and> startswith q (p @ ''.'')
            \<and> (\<forall>k'\<in>set (keys m). startswith q (k' @ ''.'') \<longrightarrow> length k' \<le> length p)"
proof -
  have "first_match (sorted_len_reverse (keys m)) q \<noteq> None"
    using assms by (auto simp: first_match_None set_sorted_len_reverse)
  then obtain p where p: "first_match (sorted_len_reverse (keys m)) q = Some p" by blast
  have "extract_project_name m q = Inr p" using p by (simp add: extract_project_name_def)
  with first_match_longest[OF p] show ?thesis by blast
qed

lemma get_project_path_present:
  "contains m n \<Longrightarrow> \<exists>p. getitem m n = Some p \<and> get_project_path m n = Inr p"
  using contains_getitem[of m n] by (auto simp: get_project_path_def)

lemma get_project_path_absent:
  "\<not> contains m n \<Longrightarrow> get_project_path m n = Inl (KeyError n (str_join '', '' (keys m)))"
  by (simp add: get_project_path_def)

lemma extract_total: "\<exists>s. extract_project_name m q = Inr s"
  using extract_cases[of m q] by blast

lemma takeWhile_bare_prefix:
  assumes "c \<noteq> CHR ''.''"
  shows "takeWhile (\<lambda>x. x \<noteq> CHR ''.'') (p @ c # rest) \<noteq> p"
proof (cases "\<forall>x\<in>set p. x \<noteq> CHR ''.''")
  case True
  then have "takeWhile (\<lambda>x. x \<noteq> CHR ''.'') (p @ c # rest)
               = p @ takeWhile (\<lambda>x. x \<noteq> CHR ''.'') (c # rest)"
    by (simp add: takeWhile_append2)
  with assms show ?thesis by simp
next
  case False
  then have "CHR ''.'' \<in> set p" by blast
  moreover have "CHR ''.'' \<notin> set (takeWhile (\<lambda>x. x \<noteq> CHR ''.'') (p @ c # rest))"
    using set_takeWhileD by fastforce
  ultimately show ?thesis by metis
qed

lemma not_startswith_bare: "c \<noteq> CHR ''.'' \<Longrightarrow> \<not> startswith (p @ c # rest) (p @ ''.'')"
  by (simp add: startswith_def)

lemma takeWhile_dot_neq:
  "CHR ''.'' \<in> set q \<Longrightarrow> takeWhile (\<lambda>c. c \<noteq> CHR ''.'') q \<noteq> q"
  by (simp add: takeWhile_eq_all_conv)

lemma startswith_dot_neq: "startswith q (p @ ''.'') \<Longrightarrow> p \<noteq> q"
  by (auto simp: startswith_def prefix_def)

lemma length_str_split: "length (str_split sep s) = Suc (count_list s sep)"
  by (induction s) (auto split: list.splits simp: str_split_nonempty)

lemma two_segments_prefix:
  assumes "length (str_split CHR ''.'' q) = 2" and "startswith q (k @ ''.'')"
  shows "k = takeWhile (\<lambda>c. c \<noteq> CHR ''.'') q"
proof -
  from assms(2) obtain r where q: "q = k @ CHR ''.'' # r"
    by (auto simp: startswith_def prefix_def)
  from assms(1) have "count_list q CHR ''.'' = 1" by (simp add: length_str_split)
  with q have "count_list k CHR ''.'' = 0" by simp
  then have "\<forall>x\<in>set k. x \<noteq> CHR ''.''" by (auto simp: count_list_0_iff)
  then have "takeWhile (\<lambda>c. c \<noteq> CHR ''.'') (k @ CHR ''.'' # r) = k"
    by (simp add: takeWhile_append2)
  with q show ?thesis by simp
qed

lemma two_segments_has_dot:
  "length (str_split CHR ''.'' q) = 2 \<Longrightarrow> CHR ''.'' \<in> set q"
proof -
  assume "length (str_split CHR ''.'' q) = 2"
  then have "count_list q CHR ''.'' \<noteq> 0" by (simp add: length_str_split)
  then show ?thesis by (simp add: count_list_0_iff)
qed

lemma resolve_of_extract:
  assumes "extract_project_name m q = Inr n"
  shows "contains m n \<Longrightarrow> \<exists>r. getitem m n = Some r \<and> resolve_path_from_fqn m q = Inr r"
    and "\<not> contains m n \<Longrightarrow>
           resolve_path_from_fqn m q = Inl (KeyError n (str_join '', '' (keys m)))"
proof -
  have r: "resolve_path_from_fqn m q = get_project_path m n"
    using assms by (simp add: resolve_path_from_fqn_def)
  show "\<exists>r. getitem m n = Some r \<and> resolve_path_from_fqn m q = Inr r" if "contains m n"
    using get_project_path_present[OF that] r by simp
  show "resolve_path_from_fqn m q = Inl (KeyError n (str_join '', '' (keys m)))"
    if "\<not> contains m n"
    using get_project_path_absent[OF that] r by simp
qed

lemma extract_only_first_segment:
  assumes "\<forall>k\<in>set (keys m). startswith q (k @ ''.'') \<longrightarrow> k = takeWhile (\<lambda>c. c \<noteq> CHR ''.'') q"
  shows "extract_project_name m q = Inr (takeWhile (\<lambda>c. c \<noteq> CHR ''.'') q)"
proof -
  from extract_cases[of m q] show ?thesis
  proof
    assume "\<exists>p. first_match (sorted_len_reverse (keys m)) q = Some p
                \<and> extract_project_name m q = Inr p"
    then obtain p where p: "first_match (sorted_len_reverse (keys m)) q = Some p"
      "extract_project_name m q = Inr p" by blast
    from first_match_longest(1,2)[OF p(1)] assms
    have "p = takeWhile (\<lambda>c. c \<noteq> CHR ''.'') q" by blast
    with p(2) show ?thesis by simp
  next
    assume "first_match (sorted_len_reverse (keys m)) q = None
              \<and> extract_project_name m q = Inr (takeWhile (\<lambda>c. c \<noteq> CHR ''.'') q)"
    then show ?thesis by simp
  qed
qed

section \<open>Properties of the registry and the resolver\<close>

text \<open>
  C9. For every registry and every name, \<open>get_project_path\<close> returns the stored path when
  the name is registered, and otherwise fails with the one error of the module, whose
  format arguments are the requested name and the registered names joined by a comma and
  a space. There is no third outcome.
\<close>
theorem get_project_path_raises_iff_absent:
  "(contains m n \<longrightarrow> (\<exists>p. getitem m n = Some p \<and> get_project_path m n = Inr p))
   \<and> (\<not> contains m n \<longrightarrow>
        get_project_path m n = Inl (KeyError n (str_join '', '' (keys m))))"
  using get_project_path_present[of m n] get_project_path_absent[of m n] by blast

theorem get_project_path_raises_iff_absent_witness:
  "contains [(''project1'', ''/path1''), (''project2'', ''/path2'')] ''project1''
   \<and> get_project_path [(''project1'', ''/path1''), (''project2'', ''/path2'')] ''project1''
       = Inr ''/path1''
   \<and> \<not> contains [(''project1'', ''/path1''), (''project2'', ''/path2'')] ''unknown''
   \<and> get_project_path [(''project1'', ''/path1''), (''project2'', ''/path2'')] ''unknown''
       = Inl (KeyError ''unknown'' ''project1, project2'')"
  using get_project_path_raises_iff_absent
          [of "[(''project1'', ''/path1''), (''project2'', ''/path2'')]" "''project1''"]
        get_project_path_raises_iff_absent
          [of "[(''project1'', ''/path1''), (''project2'', ''/path2'')]" "''unknown''"]
  by (simp add: contains_def keys_def getitem_def)

text \<open>
  C8. For every registry and every name that is not registered, \<open>remove_project\<close> fails
  with the error that names the requested project and lists the registered names, and the
  registry after the failed call is the registry before it.
\<close>
theorem remove_project_absent_unchanged:
  "\<not> contains m n \<Longrightarrow>
     remove_project m n = (Inl (KeyError n (str_join '', '' (keys m))), m)"
  by (simp add: remove_project_def)

theorem remove_project_absent_unchanged_witness:
  "\<not> contains [(''project1'', ''/path1''), (''project2'', ''/path2'')] ''unknown''
   \<and> remove_project [(''project1'', ''/path1''), (''project2'', ''/path2'')] ''unknown''
       = (Inl (KeyError ''unknown'' ''project1, project2''),
          [(''project1'', ''/path1''), (''project2'', ''/path2'')])"
  using remove_project_absent_unchanged
          [of "[(''project1'', ''/path1''), (''project2'', ''/path2'')]" "''unknown''"]
  by (simp add: contains_def keys_def)

text \<open>
  C7, as stated, fails: \<open>Path(path).resolve()\<close> is evaluated before the store, and it
  raises on some path strings (\<open>ValueError\<close> on an embedded NUL character). The call then
  stores nothing, and the lookup of the name fails.
\<close>

theorem add_project_counterexample:
  "add_project (\<lambda>p. if CHR 0x00 \<in> set p then Inl ValueError else Inr (''/cwd/'' @ p))
      [(''other'', ''/x'')] ''myproject'' [CHR ''a'', CHR 0x00, CHR ''b'']
     = (Inl ValueError, [(''other'', ''/x'')])
   \<and> get_project_path
        (snd (add_project (\<lambda>p. if CHR 0x00 \<in> set p then Inl ValueError else Inr (''/cwd/'' @ p))
                [(''other'', ''/x'')] ''myproject'' [CHR ''a'', CHR 0x00, CHR ''b'']))
        ''myproject''
     = Inl (KeyError ''myproject'' ''other'')"
  by (simp add: add_project_def get_project_path_def contains_def keys_def)

text \<open>
  C7, amended. For every registry, every name and every path string whose resolution
  succeeds, \<open>add_project\<close> followed by \<open>get_project_path\<close> on the same name returns the
  resolved form of the path string: the value stored under the name is the resolved
  path, never the raw string, and the lookup hands the stored value back without
  resolving anything (\<open>get_project_path\<close> has no access to \<open>resolve\<close>). When the resolution
  raises, \<open>add_project\<close> raises the same error and the registry is as it was.
\<close>

theorem add_project_then_get_project_path:
  "(resolve p = Inr c \<longrightarrow>
      add_project resolve m n p = (Inr (), setitem m n c)
      \<and> getitem (snd (add_project resolve m n p)) n = Some c
      \<and> get_project_path (snd (add_project resolve m n p)) n = Inr c)
   \<and> (resolve p = Inl e \<longrightarrow> add_project resolve m n p = (Inl e, m))"
proof (intro conjI impI)
  assume r: "resolve p = Inr c"
  then show a: "add_project resolve m n p = (Inr (), setitem m n c)"
    by (simp add: add_project_def)
  show g: "getitem (snd (add_project resolve m n p)) n = Some c"
    by (simp add: a getitem_setitem)
  have "contains (snd (add_project resolve m n p)) n"
    by (simp add: a contains_setitem)
  from get_project_path_present[OF this] g
  show "get_project_path (snd (add_project resolve m n p)) n = Inr c" by auto
next
  assume "resolve p = Inl e"
  then show "add_project resolve m n p = (Inl e, m)" by (simp add: add_project_def)
qed

theorem add_project_then_get_project_path_witness:
  "add_project (\<lambda>p. if CHR 0x00 \<in> set p then Inl ValueError else Inr (''/cwd/'' @ p))
      [(''other'', ''/x'')] ''myproject'' ''relative/path''
     = (Inr (), [(''other'', ''/x''), (''myproject'', ''/cwd/relative/path'')])
   \<and> get_project_path
        (snd (add_project (\<lambda>p. if CHR 0x00 \<in> set p then Inl ValueError else Inr (''/cwd/'' @ p))
                [(''other'', ''/x'')] ''myproject'' ''relative/path''))
        ''myproject''
     = Inr ''/cwd/relative/path''
   \<and> add_project (\<lambda>p. if CHR 0x00 \<in> set p then Inl ValueError else Inr (''/cwd/'' @ p))
        [(''other'', ''/x'')] ''myproject'' [CHR 0x00]
     = (Inl ValueError, [(''other'', ''/x'')])"
proof -
  let ?resolve = "\<lambda>p. if CHR 0x00 \<in> set p then Inl ValueError else Inr (''/cwd/'' @ p)"
  let ?m = "[(''other'', ''/x'')]"
  have r1: "?resolve ''relative/path'' = Inr ''/cwd/relative/path''" by simp
  have r2: "?resolve [CHR 0x00] = Inl ValueError" by simp
  have s: "setitem ?m ''myproject'' ''/cwd/relative/path''
             = [(''other'', ''/x''), (''myproject'', ''/cwd/relative/path'')]"
    by (simp add: setitem_def)
  from add_project_then_get_project_path
         [where resolve = ?resolve and m = ?m and n = "''myproject''"
            and p = "''relative/path''" and c = "''/cwd/relative/path''"] r1
  have a: "add_project ?resolve ?m ''myproject'' ''relative/path''
             = (Inr (), setitem ?m ''myproject'' ''/cwd/relative/path'')"
    and g: "get_project_path (snd (add_project ?resolve ?m ''myproject'' ''relative/path''))
              ''myproject'' = Inr ''/cwd/relative/path''"
    by blast+
  from add_project_then_get_project_path
         [where resolve = ?resolve and m = ?m and n = "''myproject''"
            and p = "[CHR 0x00]" and e = ValueError] r2
  have f: "add_project ?resolve ?m ''myproject'' [CHR 0x00] = (Inl ValueError, ?m)"
    by blast
  from a g f show ?thesis unfolding s by blast
qed

text \<open>
  C3. A registered name counts as a match only when the qualified name starts with the
  name followed by a dot: whatever the loop returns is registered and dot-bounded. A
  qualified name that continues a registered name \<open>n\<close> with a character other than the dot
  (\<open>projectX.foo\<close> against \<open>project\<close>) never resolves to \<open>n\<close>; and when no registered name
  is a dot-bounded prefix, the result is the fallback, the first segment.
\<close>
theorem extract_project_name_dot_bounded:
  "(first_match (sorted_len_reverse (keys m)) q = Some p \<longrightarrow>
      contains m p \<and> startswith q (p @ ''.'') \<and> extract_project_name m q = Inr p)
   \<and> (c \<noteq> CHR ''.'' \<longrightarrow> extract_project_name m (n @ c # rest) \<noteq> Inr n)
   \<and> ((\<forall>k\<in>set (keys m). \<not> startswith q (k @ ''.'')) \<longrightarrow>
        extract_project_name m q = Inr (takeWhile (\<lambda>x. x \<noteq> CHR ''.'') q))"
proof (intro conjI impI)
  assume h: "first_match (sorted_len_reverse (keys m)) q = Some p"
  from first_match_longest(1,2)[OF h] show "contains m p" "startswith q (p @ ''.'')"
    by (simp_all add: contains_def)
  from h show "extract_project_name m q = Inr p" by (simp add: extract_project_name_def)
next
  assume c: "c \<noteq> CHR ''.''"
  let ?q = "n @ c # rest"
  from extract_cases[of m ?q] show "extract_project_name m ?q \<noteq> Inr n"
  proof
    assume "\<exists>p. first_match (sorted_len_reverse (keys m)) ?q = Some p
                \<and> extract_project_name m ?q = Inr p"
    then obtain p where p: "first_match (sorted_len_reverse (keys m)) ?q = Some p"
      "extract_project_name m ?q = Inr p" by blast
    from first_match_longest(2)[OF p(1)] not_startswith_bare[OF c, of n rest]
    have "p \<noteq> n" by blast
    with p(2) show ?thesis by simp
  next
    assume "first_match (sorted_len_reverse (keys m)) ?q = None
              \<and> extract_project_name m ?q = Inr (takeWhile (\<lambda>c. c \<noteq> CHR ''.'') ?q)"
    with takeWhile_bare_prefix[OF c, of n rest] show ?thesis by simp
  qed
next
  assume "\<forall>k\<in>set (keys m). \<not> startswith q (k @ ''.'')"
  then show "extract_project_name m q = Inr (takeWhile (\<lambda>x. x \<noteq> CHR ''.'') q)"
    by (rule extract_no_match)
qed

theorem extract_project_name_dot_bounded_witness:
  "first_match (sorted_len_reverse (keys [(''project'', ''/p1''), (''project.sub'', ''/p2'')]))
      ''project.sub.module.func'' = Some ''project.sub''
   \<and> extract_project_name [(''project'', ''/p1''), (''project.sub'', ''/p2'')]
        ''project.sub.module.func'' = Inr ''project.sub''
   \<and> extract_project_name [(''project'', ''/p1'')] ''projectX.foo'' \<noteq> Inr ''project''
   \<and> extract_project_name [(''project'', ''/p1'')] ''projectX.foo'' = Inr ''projectX''"
  using extract_project_name_dot_bounded
          [of "[(''project'', ''/p1''), (''project.sub'', ''/p2'')]"
              "''project.sub.module.func''" "''project.sub''"]
        extract_project_name_dot_bounded
          [where c = "CHR ''X''" and m = "[(''project'', ''/p1'')]" and n = "''project''"
             and rest = "''.foo''" and q = "''projectX.foo''"]
  by (simp add: keys_def sorted_len_reverse_def startswith_def)

text \<open>
  C4. \<open>extract_project_name\<close> always returns a string: the index \<open>[0]\<close> of the fallback
  never raises, since \<open>split\<close> yields at least one piece. When no registered name is a
  dot-bounded prefix of the input, the result is the input up to, and without, its first
  dot, and the whole input when it has no dot.
\<close>
theorem extract_project_name_total_fallback:
  "(\<exists>s. extract_project_name m q = Inr s)
   \<and> ((\<forall>k\<in>set (keys m). \<not> startswith q (k @ ''.'')) \<longrightarrow>
        extract_project_name m q = Inr (takeWhile (\<lambda>c. c \<noteq> CHR ''.'') q)
        \<and> (CHR ''.'' \<notin> set q \<longrightarrow> extract_project_name m q = Inr q))"
proof (intro conjI impI)
  show "\<exists>s. extract_project_name m q = Inr s" by (rule extract_total)
next
  assume h: "\<forall>k\<in>set (keys m). \<not> startswith q (k @ ''.'')"
  then show e: "extract_project_name m q = Inr (takeWhile (\<lambda>c. c \<noteq> CHR ''.'') q)"
    by (rule extract_no_match)
  assume "CHR ''.'' \<notin> set q"
  then have "takeWhile (\<lambda>c. c \<noteq> CHR ''.'') q = q" by auto
  with e show "extract_project_name m q = Inr q" by simp
qed

theorem extract_project_name_total_fallback_witness:
  "extract_project_name [(''other'', ''/x'')] ''unknown.module.function'' = Inr ''unknown''
   \<and> extract_project_name [(''myproject'', ''/path'')] ''myproject'' = Inr ''myproject''"
  using extract_project_name_total_fallback [of "[(''other'', ''/x'')]" "''unknown.module.function''"]
        extract_project_name_total_fallback [of "[(''myproject'', ''/path'')]" "''myproject''"]
  by (simp add: keys_def startswith_def)

text \<open>
  C5. \<open>resolve_path_from_fqn\<close> is \<open>extract_project_name\<close> followed by \<open>get_project_path\<close>:
  the extraction yields a name, the result is the lookup of that name, and the call fails
  exactly when that name (a dot-bounded match or the first-segment fallback) is not
  registered; the failure is then the error naming it and listing the registered names.
\<close>

theorem resolve_path_from_fqn_composes:
  "\<exists>project_name.
      extract_project_name m q = Inr project_name
      \<and> resolve_path_from_fqn m q = get_project_path m project_name
      \<and> (isl (resolve_path_from_fqn m q) \<longleftrightarrow> \<not> contains m project_name)
      \<and> (\<forall>e. resolve_path_from_fqn m q = Inl e \<longrightarrow>
             e = KeyError project_name (str_join '', '' (keys m)))"
proof -
  from extract_total[of m q] obtain s where s: "extract_project_name m q = Inr s" by blast
  then have r: "resolve_path_from_fqn m q = get_project_path m s"
    by (simp add: resolve_path_from_fqn_def)
  have g1: "isl (get_project_path m s) \<longleftrightarrow> \<not> contains m s"
  proof (cases "contains m s")
    case True
    from get_project_path_present[OF True] obtain p where "get_project_path m s = Inr p"
      by blast
    with True show ?thesis by simp
  next
    case False
    from get_project_path_absent[OF False] False show ?thesis by simp
  qed
  have g2: "\<forall>e. get_project_path m s = Inl e \<longrightarrow> e = KeyError s (str_join '', '' (keys m))"
  proof (cases "contains m s")
    case True
    from get_project_path_present[OF True] obtain p where "get_project_path m s = Inr p"
      by blast
    then show ?thesis by simp
  next
    case False
    from get_project_path_absent[OF False] show ?thesis by simp
  qed
  from g1 g2 have "extract_project_name m q = Inr s
      \<and> resolve_path_from_fqn m q = get_project_path m s
      \<and> (isl (resolve_path_from_fqn m q) \<longleftrightarrow> \<not> contains m s)
      \<and> (\<forall>e. resolve_path_from_fqn m q = Inl e \<longrightarrow>
             e = KeyError s (str_join '', '' (keys m)))"
    unfolding r using s by simp
  then show ?thesis by (rule exI)
qed

theorem resolve_path_from_fqn_composes_witness:
  "resolve_path_from_fqn [(''other'', ''/x'')] ''unknown.module.function''
     = Inl (KeyError ''unknown'' ''other'')
   \<and> resolve_path_from_fqn [(''other'', ''/x'')] ''other.module.function'' = Inr ''/x''"
proof -
  have a: "extract_project_name [(''other'', ''/x'')] ''unknown.module.function'' = Inr ''unknown''"
    by (simp add: extract_project_name_def keys_def sorted_len_reverse_def startswith_def
          index0_def)
  have b: "extract_project_name [(''other'', ''/x'')] ''other.module.function'' = Inr ''other''"
    by (simp add: extract_project_name_def keys_def sorted_len_reverse_def startswith_def)
  have c: "get_project_path [(''other'', ''/x'')] ''unknown'' = Inl (KeyError ''unknown'' ''other'')"
    by (simp add: get_project_path_def contains_def keys_def)
  have d: "get_project_path [(''other'', ''/x'')] ''other'' = Inr ''/x''"
    by (simp add: get_project_path_def contains_def keys_def getitem_def)
  from resolve_path_from_fqn_composes [of "[(''other'', ''/x'')]" "''unknown.module.function''"]
  have 1: "resolve_path_from_fqn [(''other'', ''/x'')] ''unknown.module.function''
             = Inl (KeyError ''unknown'' ''other'')"
    unfolding a using c by simp
  from resolve_path_from_fqn_composes [of "[(''other'', ''/x'')]" "''other.module.function''"]
  have 2: "resolve_path_from_fqn [(''other'', ''/x'')] ''other.module.function'' = Inr ''/x''"
    unfolding b using d by simp
  from 1 2 show ?thesis by (rule conjI)
qed

text \<open>
  C10, as stated, fails in its first half: \<open>add_project\<close> with the empty name does not
  succeed for every path string. The resolution of the path comes first and may raise;
  the empty name is then not registered.
\<close>

theorem empty_project_name_counterexample:
  "add_project (\<lambda>p. if CHR 0x00 \<in> set p then Inl ValueError else Inr p)
      [] [] [CHR ''a'', CHR 0x00, CHR ''b'']
     = (Inl ValueError, [])
   \<and> \<not> contains
        (snd (add_project (\<lambda>p. if CHR 0x00 \<in> set p then Inl ValueError else Inr p)
                [] [] [CHR ''a'', CHR 0x00, CHR ''b'']))
        []"
  by (simp add: add_project_def contains_def keys_def)

text \<open>
  C10, amended. The empty string is a legal project name: \<open>add_project\<close> checks nothing
  about the name and registers the empty one whenever the resolution of the path
  succeeds (and raises the error of the resolution, storing nothing, when it does not).
  When the empty name is registered and no non-empty registered name is a dot-bounded
  prefix of the input, \<open>extract_project_name\<close> on an input that begins with a dot returns
  the empty string, and it does so as the match of the loop, not through the fallback.
\<close>

theorem empty_project_name:
  "(resolve path = Inr c \<longrightarrow>
      add_project resolve m [] path = (Inr (), setitem m [] c)
      \<and> contains (snd (add_project resolve m [] path)) []
      \<and> get_project_path (snd (add_project resolve m [] path)) [] = Inr c)
   \<and> (resolve path = Inl e \<longrightarrow> add_project resolve m [] path = (Inl e, m))
   \<and> (contains m' [] \<and> startswith q ''.''
        \<and> (\<forall>k\<in>set (keys m'). k \<noteq> [] \<longrightarrow> \<not> startswith q (k @ ''.''))
      \<longrightarrow> first_match (sorted_len_reverse (keys m')) q = Some []
          \<and> extract_project_name m' q = Inr [])"
proof (intro conjI impI)
  assume r: "resolve path = Inr c"
  then show a: "add_project resolve m [] path = (Inr (), setitem m [] c)"
    by (simp add: add_project_def)
  show c: "contains (snd (add_project resolve m [] path)) []"
    by (simp add: a contains_setitem)
  have "getitem (snd (add_project resolve m [] path)) [] = Some c"
    by (simp add: a getitem_setitem)
  with get_project_path_present[OF c]
  show "get_project_path (snd (add_project resolve m [] path)) [] = Inr c" by auto
next
  assume "resolve path = Inl e"
  then show "add_project resolve m [] path = (Inl e, m)" by (simp add: add_project_def)
next
  assume h: "contains m' [] \<and> startswith q ''.''
        \<and> (\<forall>k\<in>set (keys m'). k \<noteq> [] \<longrightarrow> \<not> startswith q (k @ ''.''))"
  then have e: "[] \<in> set (keys m')" "startswith q ([] @ ''.'')" by (simp_all add: contains_def)
  then have "\<exists>k\<in>set (sorted_len_reverse (keys m')). startswith q (k @ ''.'')"
    unfolding set_sorted_len_reverse by blast
  then have "first_match (sorted_len_reverse (keys m')) q \<noteq> None"
    by (simp add: first_match_None)
  then obtain p where p: "first_match (sorted_len_reverse (keys m')) q = Some p" by blast
  from first_match_longest(1,2)[OF p] h have "p = []" by blast
  with p show f: "first_match (sorted_len_reverse (keys m')) q = Some []" by simp
  then show "extract_project_name m' q = Inr []" by (simp add: extract_project_name_def)
qed

theorem empty_project_name_witness:
  "add_project (\<lambda>p. if CHR 0x00 \<in> set p then Inl ValueError else Inr p) [] [] ''/path''
     = (Inr (), [([], ''/path'')])
   \<and> get_project_path
        (snd (add_project (\<lambda>p. if CHR 0x00 \<in> set p then Inl ValueError else Inr p)
                [] [] ''/path'')) []
     = Inr ''/path''
   \<and> first_match (sorted_len_reverse (keys [([], ''/path'')])) ''.module.function'' = Some []
   \<and> extract_project_name [([], ''/path'')] ''.module.function'' = Inr []"
proof -
  let ?resolve = "\<lambda>p. if CHR 0x00 \<in> set p then Inl ValueError else Inr p"
  let ?m = "[([], ''/path'')]"
  have r: "?resolve ''/path'' = Inr ''/path''" by simp
  have s: "setitem [] [] ''/path'' = ?m" by (simp add: setitem_def)
  have h: "contains ?m [] \<and> startswith ''.module.function'' ''.''
        \<and> (\<forall>k\<in>set (keys ?m). k \<noteq> [] \<longrightarrow> \<not> startswith ''.module.function'' (k @ ''.''))"
    by (simp add: contains_def keys_def startswith_def)
  note t = empty_project_name
             [where resolve = ?resolve and m = "[]" and path = "''/path''" and c = "''/path''"
                and m' = ?m and q = "''.module.function''"]
  from t r have a: "add_project ?resolve [] [] ''/path'' = (Inr (), setitem [] [] ''/path'')"
    and g: "get_project_path (snd (add_project ?resolve [] [] ''/path'')) [] = Inr ''/path''"
    by blast+
  from t h have f: "first_match (sorted_len_reverse (keys ?m)) ''.module.function'' = Some []"
    and e: "extract_project_name ?m ''.module.function'' = Inr []"
    by blast+
  from a g f e show ?thesis unfolding s by blast
qed

text \<open>
  C1. The constructor called with the empty dict: the truth test \<open>if mappings:\<close> sends the
  empty dict down the \<open>else\<close> branch, the one of \<open>None\<close>. Whenever the configured root
  resolves, the registry is then the single default entry derived from it,
  \<open>list_projects\<close> returns its name, and \<open>get_project_path\<close> on that name succeeds; when the
  root does not resolve, the construction fails with the error of the resolution. In no
  case is the result the empty registry.
\<close>

theorem init_empty_mapping_loads_default:
  "init resolve path_name target_repo_path (Some [])
     = init resolve path_name target_repo_path None
   \<and> init resolve path_name target_repo_path (Some [])
     = (case resolve target_repo_path of
          Inl e \<Rightarrow> Inl e
        | Inr default_path \<Rightarrow> Inr [(path_name default_path, default_path)])
   \<and> init resolve path_name target_repo_path (Some []) \<noteq> Inr []
   \<and> (resolve target_repo_path = Inr default_path \<longrightarrow>
        init resolve path_name target_repo_path (Some [])
          = Inr [(path_name default_path, default_path)]
        \<and> list_projects [(path_name default_path, default_path)] = [path_name default_path]
        \<and> get_project_path [(path_name default_path, default_path)] (path_name default_path)
          = Inr default_path)"
  by (cases "resolve target_repo_path")
     (simp_all add: init_def Let_def setitem_def list_projects_def keys_def
        get_project_path_def contains_def getitem_def)

theorem init_empty_mapping_loads_default_witness:
  "init (\<lambda>p. if CHR 0x00 \<in> set p then Inl ValueError else Inr p) (\<lambda>p. ''repo'')
      ''/srv/repo'' (Some [])
     = Inr [(''repo'', ''/srv/repo'')]
   \<and> list_projects [(''repo'', ''/srv/repo'')] = [''repo'']
   \<and> get_project_path [(''repo'', ''/srv/repo'')] ''repo'' = Inr ''/srv/repo''"
proof -
  let ?resolve = "\<lambda>p. if CHR 0x00 \<in> set p then Inl ValueError else Inr p"
  have r: "?resolve ''/srv/repo'' = Inr ''/srv/repo''" by simp
  from init_empty_mapping_loads_default
         [where resolve = ?resolve and path_name = "\<lambda>p. ''repo''"
            and target_repo_path = "''/srv/repo''" and default_path = "''/srv/repo''"] r
  show ?thesis by blast
qed

text \<open>
  C2, as stated, fails: a registry that holds \<open>a\<close> and \<open>a.b\<close> may hold a longer name too,
  and a qualified name that begins with \<open>a.b.\<close> may continue into it.
\<close>

theorem longest_prefix_counterexample:
  "contains [(''a'', ''/r1''), (''a.b'', ''/r2''), (''a.b.c'', ''/r3'')] ''a''
   \<and> contains [(''a'', ''/r1''), (''a.b'', ''/r2''), (''a.b.c'', ''/r3'')] ''a.b''
   \<and> startswith ''a.b.c.d'' ''a.b.''
   \<and> extract_project_name [(''a'', ''/r1''), (''a.b'', ''/r2''), (''a.b.c'', ''/r3'')] ''a.b.c.d''
       = Inr ''a.b.c''
   \<and> extract_project_name [(''a'', ''/r1''), (''a.b'', ''/r2''), (''a.b.c'', ''/r3'')] ''a.b.c.d''
       \<noteq> Inr ''a.b''"
  by (simp add: contains_def keys_def startswith_def extract_project_name_def
        sorted_len_reverse_def)

text \<open>
  C2, amended. For every registry that holds \<open>a\<close> and \<open>a.b\<close> and every qualified name that
  begins with \<open>a.b.\<close>, \<open>extract_project_name\<close> never returns \<open>a\<close>: it returns a registered
  dot-bounded prefix at least as long as \<open>a.b\<close>. It returns \<open>a.b\<close> itself whenever no
  registered name longer than \<open>a.b\<close> is a dot-bounded prefix of the qualified name, in
  particular when \<open>a\<close> and \<open>a.b\<close> are the only registered names.
\<close>

theorem longest_prefix_wins:
  assumes "contains m ''a''" and "contains m ''a.b''" and "startswith q ''a.b.''"
  shows "extract_project_name m q \<noteq> Inr ''a''
    \<and> (\<exists>p. extract_project_name m q = Inr p \<and> contains m p \<and> startswith q (p @ ''.'')
           \<and> length ''a.b'' \<le> length p)
    \<and> ((\<forall>k\<in>set (keys m). length ''a.b'' < length k \<longrightarrow> \<not> startswith q (k @ ''.''))
          \<longrightarrow> extract_project_name m q = Inr ''a.b'')
    \<and> (set (keys m) = {''a'', ''a.b''} \<longrightarrow> extract_project_name m q = Inr ''a.b'')"
proof -
  have k: "''a.b'' \<in> set (keys m)" using assms(2) by (simp add: contains_def)
  have s: "startswith q (''a.b'' @ ''.'')" using assms(3) by simp
  from extract_match[OF k s] obtain p where
    p: "extract_project_name m q = Inr p" "p \<in> set (keys m)" "startswith q (p @ ''.'')"
       "\<forall>k'\<in>set (keys m). startswith q (k' @ ''.'') \<longrightarrow> length k' \<le> length p"
    by blast
  from p(4) k s have len: "length ''a.b'' \<le> length p" by blast
  have 1: "extract_project_name m q \<noteq> Inr ''a''"
  proof
    assume "extract_project_name m q = Inr ''a''"
    with p(1) have "p = ''a''" by simp
    with len show False by simp
  qed
  have 2: "\<exists>p. extract_project_name m q = Inr p \<and> contains m p \<and> startswith q (p @ ''.'')
           \<and> length ''a.b'' \<le> length p"
    using p(1,2,3) len by (auto simp: contains_def)
  have 3: "extract_project_name m q = Inr ''a.b''"
    if h: "\<forall>k\<in>set (keys m). length ''a.b'' < length k \<longrightarrow> \<not> startswith q (k @ ''.'')"
  proof -
    from h p(2,3) have "\<not> length ''a.b'' < length p" by blast
    with len have "length p = length ''a.b''" by simp
    from startswith_same_length[OF p(3) s this] p(1) show ?thesis by simp
  qed
  have 4: "extract_project_name m q = Inr ''a.b''" if h: "set (keys m) = {''a'', ''a.b''}"
  proof -
    from h have "\<forall>k\<in>set (keys m). length ''a.b'' < length k \<longrightarrow> \<not> startswith q (k @ ''.'')"
      by simp
    then show ?thesis by (rule 3)
  qed
  from 1 2 3 4 show ?thesis by blast
qed

theorem longest_prefix_wins_witness:
  "contains [(''a'', ''/r1''), (''a.b'', ''/r2'')] ''a''
   \<and> contains [(''a'', ''/r1''), (''a.b'', ''/r2'')] ''a.b''
   \<and> startswith ''a.b.module.func'' ''a.b.''
   \<and> extract_project_name [(''a'', ''/r1''), (''a.b'', ''/r2'')] ''a.b.module.func'' = Inr ''a.b''"
proof -
  have 1: "contains [(''a'', ''/r1''), (''a.b'', ''/r2'')] ''a''"
    and 2: "contains [(''a'', ''/r1''), (''a.b'', ''/r2'')] ''a.b''"
    and 3: "startswith ''a.b.module.func'' ''a.b.''"
    by (simp_all add: contains_def keys_def startswith_def)
  have 4: "set (keys [(''a'', ''/r1''), (''a.b'', ''/r2'')]) = {''a'', ''a.b''}"
    by (simp add: keys_def)
  from longest_prefix_wins[OF 1 2 3] 4
  have "extract_project_name [(''a'', ''/r1''), (''a.b'', ''/r2'')] ''a.b.module.func'' = Inr ''a.b''"
    by blast
  with 1 2 3 show ?thesis by blast
qed

text \<open>
  C6, as stated, fails: a registered name of three segments has a proper dot-bounded
  prefix of two segments, and when that prefix is registered too, it is the result, not
  the first segment; the resolution then succeeds although the first segment is not
  registered.
\<close>

theorem exact_namespace_counterexample:
  "contains [(''a.b'', ''/r1''), (''a.b.c'', ''/r2'')] ''a.b.c''
   \<and> CHR ''.'' \<in> set ''a.b.c''
   \<and> extract_project_name [(''a.b'', ''/r1''), (''a.b.c'', ''/r2'')] ''a.b.c'' = Inr ''a.b''
   \<and> takeWhile (\<lambda>c. c \<noteq> CHR ''.'') ''a.b.c'' = ''a''
   \<and> \<not> contains [(''a.b'', ''/r1''), (''a.b.c'', ''/r2'')] ''a''
   \<and> resolve_path_from_fqn [(''a.b'', ''/r1''), (''a.b.c'', ''/r2'')] ''a.b.c'' = Inr ''/r1''"
  by (simp add: contains_def keys_def startswith_def extract_project_name_def
        sorted_len_reverse_def resolve_path_from_fqn_def get_project_path_def getitem_def)

text \<open>
  C6, amended. For every registry and every qualified name that is exactly a registered
  name of several segments, \<open>extract_project_name\<close> never returns that name: the
  dot-boundary test fails on it. When the registry holds no dot-bounded prefix of the
  input other than, possibly, its first segment, which is always so for an input of two
  segments, the result is the input's first segment, and \<open>resolve_path_from_fqn\<close> fails
  with the error naming the first segment unless the first segment is registered. When
  some registered name is a dot-bounded prefix of the input, the result is the longest
  such name, and \<open>resolve_path_from_fqn\<close> returns the path stored under it.
\<close>

theorem exact_namespace_not_matched:
  assumes "contains m q" and "CHR ''.'' \<in> set q"
  shows "extract_project_name m q \<noteq> Inr q
    \<and> ((\<forall>k\<in>set (keys m). startswith q (k @ ''.'') \<longrightarrow> k = takeWhile (\<lambda>c. c \<noteq> CHR ''.'') q)
         \<longrightarrow> extract_project_name m q = Inr (takeWhile (\<lambda>c. c \<noteq> CHR ''.'') q)
             \<and> (contains m (takeWhile (\<lambda>c. c \<noteq> CHR ''.'') q) \<longrightarrow>
                   (\<exists>p. resolve_path_from_fqn m q = Inr p))
             \<and> (\<not> contains m (takeWhile (\<lambda>c. c \<noteq> CHR ''.'') q) \<longrightarrow>
                   resolve_path_from_fqn m q
                     = Inl (KeyError (takeWhile (\<lambda>c. c \<noteq> CHR ''.'') q)
                              (str_join '', '' (keys m)))))
    \<and> (length (str_split CHR ''.'' q) = 2
         \<longrightarrow> extract_project_name m q = Inr (takeWhile (\<lambda>c. c \<noteq> CHR ''.'') q)
             \<and> (contains m (takeWhile (\<lambda>c. c \<noteq> CHR ''.'') q) \<longrightarrow>
                   (\<exists>p. resolve_path_from_fqn m q = Inr p))
             \<and> (\<not> contains m (takeWhile (\<lambda>c. c \<noteq> CHR ''.'') q) \<longrightarrow>
                   resolve_path_from_fqn m q
                     = Inl (KeyError (takeWhile (\<lambda>c. c \<noteq> CHR ''.'') q)
                              (str_join '', '' (keys m)))))
    \<and> ((\<exists>k\<in>set (keys m). startswith q (k @ ''.''))
         \<longrightarrow> (\<exists>p r. extract_project_name m q = Inr p
                 \<and> contains m p \<and> startswith q (p @ ''.'')
                 \<and> (\<forall>k\<in>set (keys m). startswith q (k @ ''.'') \<longrightarrow> length k \<le> length p)
                 \<and> getitem m p = Some r
                 \<and> resolve_path_from_fqn m q = Inr r))"
proof -
  let ?fs = "takeWhile (\<lambda>c. c \<noteq> CHR ''.'') q"
  have 1: "extract_project_name m q \<noteq> Inr q"
  proof
    assume e: "extract_project_name m q = Inr q"
    from extract_cases[of m q] show False
    proof
      assume "\<exists>p. first_match (sorted_len_reverse (keys m)) q = Some p
                  \<and> extract_project_name m q = Inr p"
      then obtain p where p: "first_match (sorted_len_reverse (keys m)) q = Some p"
        "extract_project_name m q = Inr p" by blast
      from first_match_longest(2)[OF p(1)] have "p \<noteq> q" by (rule startswith_dot_neq)
      with p(2) e show False by simp
    next
      assume "first_match (sorted_len_reverse (keys m)) q = None
                \<and> extract_project_name m q = Inr ?fs"
      with e have "?fs = q" by simp
      with takeWhile_dot_neq[OF assms(2)] show False by simp
    qed
  qed
  have 2: "extract_project_name m q = Inr ?fs
             \<and> (contains m ?fs \<longrightarrow> (\<exists>p. resolve_path_from_fqn m q = Inr p))
             \<and> (\<not> contains m ?fs \<longrightarrow>
                   resolve_path_from_fqn m q = Inl (KeyError ?fs (str_join '', '' (keys m))))"
    if h: "\<forall>k\<in>set (keys m). startswith q (k @ ''.'') \<longrightarrow> k = ?fs"
  proof -
    have e: "extract_project_name m q = Inr ?fs" using h by (rule extract_only_first_segment)
    from resolve_of_extract[OF e] e show ?thesis by blast
  qed
  have 3: "extract_project_name m q = Inr ?fs
             \<and> (contains m ?fs \<longrightarrow> (\<exists>p. resolve_path_from_fqn m q = Inr p))
             \<and> (\<not> contains m ?fs \<longrightarrow>
                   resolve_path_from_fqn m q = Inl (KeyError ?fs (str_join '', '' (keys m))))"
    if t: "length (str_split CHR ''.'' q) = 2"
  proof -
    from two_segments_prefix[OF t]
    have "\<forall>k\<in>set (keys m). startswith q (k @ ''.'') \<longrightarrow> k = ?fs" by blast
    then show ?thesis by (rule 2)
  qed
  have 4: "\<exists>p r. extract_project_name m q = Inr p
                 \<and> contains m p \<and> startswith q (p @ ''.'')
                 \<and> (\<forall>k\<in>set (keys m). startswith q (k @ ''.'') \<longrightarrow> length k \<le> length p)
                 \<and> getitem m p = Some r
                 \<and> resolve_path_from_fqn m q = Inr r"
    if x: "\<exists>k\<in>set (keys m). startswith q (k @ ''.'')"
  proof -
    from x obtain k where k: "k \<in> set (keys m)" "startswith q (k @ ''.'')" by blast
    from extract_match[OF k] obtain p where
      p: "extract_project_name m q = Inr p" "p \<in> set (keys m)" "startswith q (p @ ''.'')"
         "\<forall>k'\<in>set (keys m). startswith q (k' @ ''.'') \<longrightarrow> length k' \<le> length p"
      by blast
    from p(2) have c: "contains m p" by (simp add: contains_def)
    from resolve_of_extract(1)[OF p(1) c] obtain r where
      "getitem m p = Some r" "resolve_path_from_fqn m q = Inr r" by blast
    with p c show ?thesis by blast
  qed
  from 1 2 3 4 show ?thesis by blast
qed

theorem exact_namespace_not_matched_witness:
  "contains [(''a.b'', ''/r1'')] ''a.b''
   \<and> CHR ''.'' \<in> set ''a.b''
   \<and> length (str_split CHR ''.'' ''a.b'') = 2
   \<and> extract_project_name [(''a.b'', ''/r1'')] ''a.b'' = Inr ''a''
   \<and> resolve_path_from_fqn [(''a.b'', ''/r1'')] ''a.b'' = Inl (KeyError ''a'' ''a.b'')
   \<and> contains [(''a'', ''/r0''), (''a.b'', ''/r1''), (''a.b.c'', ''/r2'')] ''a.b.c''
   \<and> extract_project_name [(''a'', ''/r0''), (''a.b'', ''/r1''), (''a.b.c'', ''/r2'')] ''a.b.c''
       = Inr ''a.b''
   \<and> resolve_path_from_fqn [(''a'', ''/r0''), (''a.b'', ''/r1''), (''a.b.c'', ''/r2'')] ''a.b.c''
       = Inr ''/r1''"
proof -
  let ?m1 = "[(''a.b'', ''/r1'')]"
  let ?m2 = "[(''a'', ''/r0''), (''a.b'', ''/r1''), (''a.b.c'', ''/r2'')]"
  have a: "contains ?m1 ''a.b''" "CHR ''.'' \<in> set ''a.b''" "CHR ''.'' \<in> set ''a.b.c''"
    "contains ?m2 ''a.b.c''"
    by (simp_all add: contains_def keys_def)
  have t: "length (str_split CHR ''.'' ''a.b'') = 2" by simp
  have fs: "takeWhile (\<lambda>c. c \<noteq> CHR ''.'') ''a.b'' = ''a''" by simp
  have c1: "\<not> contains ?m1 ''a''" by (simp add: contains_def keys_def)
  have j: "str_join '', '' (keys ?m1) = ''a.b''" by (simp add: keys_def)
  from exact_namespace_not_matched[OF a(1) a(2)] t c1
  have r1: "extract_project_name ?m1 ''a.b'' = Inr ''a''"
    "resolve_path_from_fqn ?m1 ''a.b'' = Inl (KeyError ''a'' ''a.b'')"
    unfolding fs j by blast+
  have x: "\<exists>k\<in>set (keys ?m2). startswith ''a.b.c'' (k @ ''.'')"
    by (simp add: keys_def startswith_def)
  from exact_namespace_not_matched[OF a(4) a(3)] x obtain p r where
    p: "extract_project_name ?m2 ''a.b.c'' = Inr p" "contains ?m2 p"
       "\<forall>k\<in>set (keys ?m2). startswith ''a.b.c'' (k @ ''.'') \<longrightarrow> length k \<le> length p"
       "startswith ''a.b.c'' (p @ ''.'')"
       "getitem ?m2 p = Some r" "resolve_path_from_fqn ?m2 ''a.b.c'' = Inr r"
    by blast
  from p(2) have "p = ''a'' \<or> p = ''a.b'' \<or> p = ''a.b.c''"
    by (simp add: contains_def keys_def)
  moreover from p(3) have "3 \<le> length p" by (simp add: keys_def startswith_def)
  moreover from p(4) have "p \<noteq> ''a.b.c''" by (rule startswith_dot_neq)
  ultimately have pe: "p = ''a.b''" by auto
  with p(5) have "r = ''/r1''" by (simp add: getitem_def)
  with p(1,6) pe
  have r2: "extract_project_name ?m2 ''a.b.c'' = Inr ''a.b''"
    "resolve_path_from_fqn ?m2 ''a.b.c'' = Inr ''/r1''" by simp_all
  from a t r1 r2 show ?thesis by blast
qed

end
